theory Spec2Isabelle
  imports Complex_Main "HOL-Library.Sublist"
begin

section \<open>Python values\<close>

text \<open>
  The values a Push literal or a Plush gene can carry.  Python floats are idealised as
  reals: the code only compares them, rounds them and hands them to helpers, and no
  result below depends on IEEE rounding.  \<open>VInstr\<close> is an instruction object (named),
  \<open>VObj\<close> any other Python object.
\<close>

datatype pyval =
    VFloat real
  | VInt int
  | VStr string
  | VBool bool
  | VNone
  | VInstr string
  | VObj nat

section \<open>Push atoms (pyshgp/push/atoms.py)\<close>

text \<open>
  \<open>Literal value push_type\<close> (the push type by its name),
  \<open>InstructionMeta name code_blocks\<close>, \<open>Input input_index\<close>, and \<open>CodeBlock\<close>, a
  persistent vector of atoms.  The methods of \<open>CodeBlock\<close> take the receiver as the
  list of its elements.
\<close>

datatype atom =
    Closer
  | Literal pyval string
  | InstructionMeta string int
  | Input int
  | CodeBlock "atom list"

text \<open>
  \<open>CodeBlock.size\<close>: the sum, over the elements, of \<open>el.size() + 1\<close> for a nested
  block and \<open>1\<close> for any other atom.  (The \<open>depth\<close> argument of the source is passed
  down and never read.)
\<close>

fun size_cb :: "atom list \<Rightarrow> int" where
  "size_cb [] = 0"
| "size_cb (CodeBlock b # els) = (size_cb b + 1) + size_cb els"
| "size_cb (el # els) = 1 + size_cb els"

text \<open>
  \<open>CodeBlock.depth\<close>.  The iterator \<open>i\<close> is the list of the elements it still yields.
  Each round of \<open>for level in count()\<close> calls \<open>next(i)\<close>, which raises
  \<open>StopIteration\<close> on an exhausted iterator (the method then returns \<open>level\<close>), and
  otherwise replaces \<open>i\<close> by the chained elements of those members that are sequences;
  among atoms only a \<open>CodeBlock\<close> is a \<open>Sequence\<close>.
\<close>

fun is_sequence :: "atom \<Rightarrow> bool" where
  "is_sequence (CodeBlock b) = True"
| "is_sequence _ = False"

fun elements :: "atom \<Rightarrow> atom list" where
  "elements (CodeBlock b) = b"
| "elements _ = []"

definition chain_from_iterable :: "atom list \<Rightarrow> atom list" where
  "chain_from_iterable ss = concat (map elements ss)"

lemma flatten_decreases:
  "size_list size (chain_from_iterable (filter is_sequence xs)) \<le> size_list size xs"
  unfolding chain_from_iterable_def
proof (induction xs)
  case Nil
  show ?case by simp
next
  case (Cons x xs)
  then show ?case by (cases x) simp_all
qed

function depth_loop :: "int \<Rightarrow> atom list \<Rightarrow> int" where
  "depth_loop level [] = level"
| "depth_loop level (x # xs) =
     depth_loop (level + 1) (chain_from_iterable (filter is_sequence (x # xs)))"
  by pat_completeness auto
termination
proof (relation "measure (\<lambda>(level, i). size_list size i)")
  show "wf (measure (\<lambda>(level, i). size_list size i))" by simp
next
  fix level :: int and x :: atom and xs :: "atom list"
  have "size_list size (chain_from_iterable (filter is_sequence (x # xs)))
          < size_list size (x # xs)"
    using flatten_decreases [of xs]
    by (cases x) (simp_all add: chain_from_iterable_def)
  then show "((level + 1, chain_from_iterable (filter is_sequence (x # xs))), (level, x # xs))
        \<in> measure (\<lambda>(level, i). size_list size i)"
    by simp
qed

definition depth :: "atom list \<Rightarrow> int" where
  "depth self = depth_loop 0 self"

text \<open>
  \<open>CodeBlock.code_at_point\<close>.  \<open>code_at_point_loop\<close> is the \<open>for el in self\<close> loop
  with the running counter \<open>i\<close>; falling off the end of the loop returns Python's
  \<open>None\<close>, here \<open>None\<close>.
\<close>

fun code_at_point :: "atom list \<Rightarrow> int \<Rightarrow> atom option"
and code_at_point_loop :: "atom list \<Rightarrow> int \<Rightarrow> atom option" where
  "code_at_point self ndx =
     (if ndx = 0 then Some (CodeBlock self) else code_at_point_loop self ndx)"
| "code_at_point_loop [] i = None"
| "code_at_point_loop (CodeBlock b # els) i0 =
     (let i = i0 - 1 in
      if i = 0 then Some (CodeBlock b)
      else (case code_at_point b i of
              Some next_depth \<Rightarrow> Some next_depth
            | None \<Rightarrow> code_at_point_loop els (i - size_cb b)))"
| "code_at_point_loop (el # els) i0 =
     (let i = i0 - 1 in
      if i = 0 then Some el else code_at_point_loop els i)"

text \<open>The program tree of the concrete scenario: \<open>[Literal(5), InstructionMeta("add")]\<close>.\<close>

definition lit5_add :: "atom list" where
  "lit5_add = [Literal (VInt 5) ''int'', InstructionMeta ''add'' 0]"

section \<open>Plush genes, individuals and parameters\<close>

text \<open>
  Modelled from the spec: the gene constructor and accessors of \<open>pyshgp/push/plush.py\<close>
  are not among the sources.  A gene is the tuple \<open>(instruction, is_literal, closes,
  silent)\<close> of the data model (payload, literal flag, close count, silent marker), in the
  argument order of \<open>make_plush_gene\<close>; \<open>constant_mutator\<close> reads \<open>token[2]\<close> and
  \<open>token[3]\<close>, the third and fourth components.
\<close>

type_synonym gene = "pyval \<times> bool \<times> int \<times> bool"

definition make_plush_gene :: "pyval \<Rightarrow> bool \<Rightarrow> int \<Rightarrow> bool \<Rightarrow> gene" where
  "make_plush_gene instruction is_literal closes silent =
     (instruction, is_literal, closes, silent)"

definition plush_gene_get_instruction :: "gene \<Rightarrow> pyval" where
  "plush_gene_get_instruction plush_gene = fst plush_gene"

definition plush_gene_is_literal :: "gene \<Rightarrow> bool" where
  "plush_gene_is_literal plush_gene = fst (snd plush_gene)"

definition plush_gene_get_closes :: "gene \<Rightarrow> int" where
  "plush_gene_get_closes plush_gene = fst (snd (snd plush_gene))"

definition plush_gene_is_silent :: "gene \<Rightarrow> bool" where
  "plush_gene_is_silent plush_gene = snd (snd (snd plush_gene))"

text \<open>
  Modelled from the spec: the class \<open>Individual\<close> of \<open>pyshgp/gp/individual.py\<close> is not
  among the sources.  An individual owns one genome by value; \<open>get_genome\<close> reads it.
\<close>

datatype individual = Individual "gene list"

fun get_genome :: "individual \<Rightarrow> gene list" where
  "get_genome (Individual genome) = genome"

text \<open>
  The dictionary \<open>evo_params\<close>, one field for each key the operators read.  The
  probability table is the list of its items in key order; \<open>max_workers\<close> is \<open>None\<close>
  or an integer; \<open>pool_ncpus\<close> is \<open>evo_params['pool'].ncpus\<close>.
\<close>

record evo_params =
  max_points :: int
  alternation_rate :: real
  alignment_deviation :: real
  uniform_mutation_rate :: real
  uniform_mutation_constant_tweak_rate :: real
  uniform_mutation_float_gaussian_standard_deviation :: real
  uniform_mutation_string_char_change_rate :: real
  uniform_close_mutation_rate :: real
  close_increment_rate :: real
  epigenetic_markers :: "string list"
  genetic_operator_probabilities :: "(string \<times> real) list"
  population_size :: int
  parallel_genetics :: bool
  max_workers :: "int option"
  pool_ncpus :: int

section \<open>The random source\<close>

text \<open>
  Every function that draws random numbers takes the source \<open>src\<close>, an infinite
  sequence of draws, and the position \<open>p\<close> of the next unused draw, and returns the
  position it has reached.  A draw holds the outcome of whichever random call is made
  at that position: \<open>d_random\<close> for \<open>random.random()\<close>, \<open>d_choice\<close> for the index
  picked by \<open>random.choice\<close>, \<open>d_gauss\<close> for \<open>u.gaussian_noise_factor()\<close>,
  \<open>d_instruction\<close> for \<open>r.random_plush_instruction(evo_params)\<close> and \<open>d_selected\<close>
  for \<open>sel.selection(population, evolutionary_params)[0]\<close>.  The last three helpers
  are not among the sources; their results are left arbitrary.
\<close>

record draw =
  d_random :: real
  d_choice :: nat
  d_gauss :: real
  d_instruction :: gene
  d_selected :: individual

type_synonym rand_src = "nat \<Rightarrow> draw"

text \<open>\<open>random.choice(seq)\<close>; every sequence passed to it in the code is a non-empty literal.\<close>

definition random_choice :: "'a list \<Rightarrow> draw \<Rightarrow> 'a" where
  "random_choice seq d = seq ! (d_choice d mod length seq)"

text \<open>
  Modelled from the spec: the selection collaborator is a black box,
  \<open>select(population, parameters) -> Individual\<close>; the value of
  \<open>sel.selection(population, evolutionary_params)[0]\<close> is the draw's individual.
\<close>

definition selection_first :: "individual list \<Rightarrow> evo_params \<Rightarrow> draw \<Rightarrow> individual" where
  "selection_first population evo_params d = d_selected d"

text \<open>Python 3 \<open>round\<close> on one argument: to the nearest integer, ties to the even one.\<close>

definition py_round :: "real \<Rightarrow> int" where
  "py_round x =
     (let f = \<lfloor>x\<rfloor>; d = x - of_int f in
      if d < 1 / 2 then f
      else if 1 / 2 < d then f + 1
      else if even f then f else f + 1)"

text \<open>\<open>int(x)\<close> on a float: truncation towards zero.\<close>

definition py_int :: "real \<Rightarrow> int" where
  "py_int x = (if 0 \<le> x then \<lfloor>x\<rfloor> else \<lceil>x\<rceil>)"

text \<open>
  Modelled from the spec: \<open>u.perturb_with_gaussian_noise(sd, n)\<close> of \<open>pyshgp/utils.py\<close>
  is not among the sources; the value is perturbed by additive Gaussian noise with the
  configured standard deviation.
\<close>

definition perturb_with_gaussian_noise :: "real \<Rightarrow> real \<Rightarrow> real \<Rightarrow> real" where
  "perturb_with_gaussian_noise sd n noise = n + sd * noise"

section \<open>Crossover and mutation (pyshgp/gp/operators.py)\<close>

text \<open>
  The \<open>while\<close> loop of \<open>alternation\<close>.  It need not terminate (a source whose draws
  all trigger the jump can keep it running for ever), so it is a partial function:
  \<open>None\<close> is a run that never returns.  One draw is used for each round: its
  \<open>d_random\<close> decides the jump and its \<open>d_gauss\<close> is the noise of that jump.  The read
  \<open>parent[i]\<close> is guarded by \<open>0 \<le> i < loop_times\<close>, the length of the parent in use.
\<close>

partial_function (option) alternation_loop ::
  "gene list \<Rightarrow> gene list \<Rightarrow> evo_params \<Rightarrow> rand_src \<Rightarrow>
   int \<Rightarrow> int \<Rightarrow> bool \<Rightarrow> gene list \<Rightarrow> nat \<Rightarrow> (gene list \<times> nat) option" where
  "alternation_loop parent_1 parent_2 evo_params src i loop_times use_parent_1
       resulting_genome p =
     (if i < loop_times \<and> int (length resulting_genome) < max_points evo_params then
        (if d_random (src p) < alternation_rate evo_params then
           (let i' = max 0 (i + py_round (alignment_deviation evo_params * d_gauss (src p)));
                use_parent_1' = (\<not> use_parent_1);
                loop_times' = (if \<not> use_parent_1' then int (length parent_2)
                               else int (length parent_1))
            in alternation_loop parent_1 parent_2 evo_params src
                 i' loop_times' use_parent_1' resulting_genome (p + 1))
         else
           (let resulting_genome' =
                  (if use_parent_1 then resulting_genome @ [parent_1 ! nat i]
                   else resulting_genome @ [parent_2 ! nat i]);
                i' = i + 1;
                loop_times' = (if \<not> use_parent_1 then int (length parent_2)
                               else int (length parent_1))
            in alternation_loop parent_1 parent_2 evo_params src
                 i' loop_times' use_parent_1 resulting_genome' (p + 1)))
      else Some (resulting_genome, p))"

definition alternation ::
  "gene list \<Rightarrow> gene list \<Rightarrow> evo_params \<Rightarrow> rand_src \<Rightarrow> nat
   \<Rightarrow> (gene list \<times> nat) option" where
  "alternation parent_1 parent_2 evo_params src p =
     (let use_parent_1 = random_choice [True, False] (src p);
          loop_times = (if \<not> use_parent_1 then int (length parent_2)
                        else int (length parent_1))
      in alternation_loop parent_1 parent_2 evo_params src 0 loop_times use_parent_1 []
           (p + 1))"

text \<open>The characters \<open>string_tweak\<close> chooses from: tab, newline and \<open>chr(32) .. chr(126)\<close>.\<close>

definition tweak_chars :: string where
  "tweak_chars = [CHR 0x09, CHR 0x0A] @ map char_of [32 ..< (127 :: nat)]"

fun string_tweak_loop ::
  "string \<Rightarrow> string \<Rightarrow> evo_params \<Rightarrow> rand_src \<Rightarrow> nat \<Rightarrow> string \<times> nat" where
  "string_tweak_loop [] new_s evo_params src p = (new_s, p)"
| "string_tweak_loop (c # s) new_s evo_params src p =
     (if d_random (src p) < uniform_mutation_string_char_change_rate evo_params
      then string_tweak_loop s (new_s @ [random_choice tweak_chars (src (p + 1))])
             evo_params src (p + 2)
      else string_tweak_loop s (new_s @ [c]) evo_params src (p + 1))"

definition string_tweak :: "string \<Rightarrow> evo_params \<Rightarrow> rand_src \<Rightarrow> nat \<Rightarrow> string \<times> nat" where
  "string_tweak s evo_params src p = string_tweak_loop s [] evo_params src p"

definition instruction_mutator :: "evo_params \<Rightarrow> rand_src \<Rightarrow> nat \<Rightarrow> gene \<times> nat" where
  "instruction_mutator evo_params src p = (d_instruction (src p), p + 1)"

text \<open>
  \<open>constant_mutator\<close>: \<open>instruction\<close> starts as \<open>None\<close> and is assigned in the branch
  of the payload's type, if there is one.
\<close>

definition constant_mutator :: "gene \<Rightarrow> evo_params \<Rightarrow> rand_src \<Rightarrow> nat \<Rightarrow> gene \<times> nat" where
  "constant_mutator token evo_params src p =
     (if plush_gene_is_literal token then
        (let const = plush_gene_get_instruction token;
             sd = uniform_mutation_float_gaussian_standard_deviation evo_params;
             (instruction, p') =
               (case const of
                  VFloat x \<Rightarrow>
                    (VFloat (perturb_with_gaussian_noise sd x (d_gauss (src p))), p + 1)
                | VInt n \<Rightarrow>
                    (VInt (py_round
                       (perturb_with_gaussian_noise sd (of_int n) (d_gauss (src p)))), p + 1)
                | VStr s \<Rightarrow>
                    (let (new_s, q) = string_tweak s evo_params src p in (VStr new_s, q))
                | VBool b \<Rightarrow> (VBool (random_choice [True, False] (src p)), p + 1)
                | _ \<Rightarrow> (VNone, p))
         in (make_plush_gene instruction True (fst (snd (snd token))) (snd (snd (snd token))),
             p'))
      else instruction_mutator evo_params src p)"

definition token_mutator :: "gene \<Rightarrow> evo_params \<Rightarrow> rand_src \<Rightarrow> nat \<Rightarrow> gene \<times> nat" where
  "token_mutator token evo_params src p =
     (if d_random (src p) < uniform_mutation_rate evo_params then
        (if d_random (src (p + 1)) < uniform_mutation_constant_tweak_rate evo_params
         then constant_mutator token evo_params src (p + 2)
         else instruction_mutator evo_params src (p + 2))
      else (token, p + 1))"

fun uniform_mutation ::
  "gene list \<Rightarrow> evo_params \<Rightarrow> rand_src \<Rightarrow> nat \<Rightarrow> gene list \<times> nat" where
  "uniform_mutation [] evo_params src p = ([], p)"
| "uniform_mutation (gene # genome) evo_params src p =
     (let (new_token, p') = token_mutator gene evo_params src p;
          (new_genome, p'') = uniform_mutation genome evo_params src p'
      in (new_token # new_genome, p''))"

definition close_mutator :: "gene \<Rightarrow> evo_params \<Rightarrow> rand_src \<Rightarrow> nat \<Rightarrow> gene \<times> nat" where
  "close_mutator gene evo_params src p =
     (let closes = plush_gene_get_closes gene;
          (new_closes, p') =
            (if d_random (src p) < uniform_close_mutation_rate evo_params then
               (if d_random (src (p + 1)) < close_increment_rate evo_params
                then (closes + 1, p + 2)
                else (if closes = 0 then (0, p + 2) else (closes - 1, p + 2)))
             else (closes, p + 1))
      in (make_plush_gene (plush_gene_get_instruction gene) (plush_gene_is_literal gene)
            new_closes (plush_gene_is_silent gene), p'))"

fun close_mutate_all ::
  "gene list \<Rightarrow> evo_params \<Rightarrow> rand_src \<Rightarrow> nat \<Rightarrow> gene list \<times> nat" where
  "close_mutate_all [] evo_params src p = ([], p)"
| "close_mutate_all (gene # genome) evo_params src p =
     (let (new_gene, p') = close_mutator gene evo_params src p;
          (new_genome, p'') = close_mutate_all genome evo_params src p'
      in (new_gene # new_genome, p''))"

definition uniform_close_mutation ::
  "gene list \<Rightarrow> evo_params \<Rightarrow> rand_src \<Rightarrow> nat \<Rightarrow> gene list \<times> nat" where
  "uniform_close_mutation genome evo_params src p =
     (if ''_close'' \<notin> set (epigenetic_markers evo_params) then (genome, p)
      else close_mutate_all genome evo_params src p)"

text \<open>The Python type of a value, as \<open>constant_mutator\<close> tests it.\<close>

datatype py_type = TFloat | TInt | TStr | TBool | TOther

fun type_of :: "pyval \<Rightarrow> py_type" where
  "type_of (VFloat x) = TFloat"
| "type_of (VInt n) = TInt"
| "type_of (VStr s) = TStr"
| "type_of (VBool b) = TBool"
| "type_of _ = TOther"

section \<open>Producing children (pyshgp/gp/operators.py)\<close>

text \<open>
  A call either never returns (\<open>None\<close>), raises (\<open>Some (Inl e)\<close>) or returns a value
  (\<open>Some (Inr x)\<close>).  \<open>bind_outcome\<close> runs the rest of the computation on a returned
  value and passes a raised error or a missing return on unchanged: the code has no
  \<open>try\<close>.
\<close>

datatype error = UnknownGeneticOperator string | ZeroDivisionError

type_synonym 'a outcome = "(error + 'a) option"

definition bind_outcome :: "'a outcome \<Rightarrow> ('a \<Rightarrow> 'b outcome) \<Rightarrow> 'b outcome" where
  "bind_outcome m f =
     (case m of None \<Rightarrow> None | Some (Inl e) \<Rightarrow> Some (Inl e) | Some (Inr x) \<Rightarrow> f x)"

text \<open>\<open>s.split(sep)\<close> for a non-empty separator: \<open>cur\<close> is the piece being read.\<close>

function split_loop :: "string \<Rightarrow> string \<Rightarrow> string \<Rightarrow> string list" where
  "split_loop sep cur [] = [cur]"
| "split_loop sep cur (c # cs) =
     (if sep \<noteq> [] \<and> prefix sep (c # cs)
      then cur # split_loop sep [] (drop (length sep) (c # cs))
      else split_loop sep (cur @ [c]) cs)"
  by pat_completeness auto
termination
  by (relation "measure (\<lambda>(sep, cur, s). length s)") auto

definition py_split :: "string \<Rightarrow> string \<Rightarrow> string list" where
  "py_split s sep = split_loop sep [] s"

text \<open>The \<open>for op in ops\<close> loop of \<open>produce_child\<close>, with the current \<open>child\<close>.\<close>

fun apply_ops ::
  "string list \<Rightarrow> individual \<Rightarrow> individual list \<Rightarrow> evo_params \<Rightarrow> rand_src \<Rightarrow> nat
   \<Rightarrow> (individual \<times> nat) outcome" where
  "apply_ops [] child population evo_params src p = Some (Inr (child, p))"
| "apply_ops (op # ops) child population evo_params src p =
     (if op = ''alternation'' then
        (let other_parent = selection_first population evo_params (src p) in
         case alternation (get_genome child) (get_genome other_parent) evo_params src (p + 1) of
           None \<Rightarrow> None
         | Some (child_genome, p') \<Rightarrow>
             apply_ops ops (Individual child_genome) population evo_params src p')
      else if op = ''uniform_mutation'' then
        (let (child_genome, p') = uniform_mutation (get_genome child) evo_params src p
         in apply_ops ops (Individual child_genome) population evo_params src p')
      else if op = ''uniform_close_mutation'' then
        (let (child_genome, p') = uniform_close_mutation (get_genome child) evo_params src p
         in apply_ops ops (Individual child_genome) population evo_params src p')
      else Some (Inl (UnknownGeneticOperator op)))"

definition produce_child ::
  "individual list \<Rightarrow> string \<Rightarrow> evo_params \<Rightarrow> rand_src \<Rightarrow> nat
   \<Rightarrow> (individual \<times> nat) outcome" where
  "produce_child population genetic_operators evo_params src p =
     (let child = selection_first population evo_params (src p);
          ops = py_split genetic_operators '' & ''
      in apply_ops ops child population evo_params src (p + 1))"

text \<open>\<open>produce_n_children\<close>: the comprehension over \<open>range(n)\<close>, empty for \<open>n \<le> 0\<close>.\<close>

fun produce_children ::
  "nat \<Rightarrow> individual list \<Rightarrow> string \<Rightarrow> evo_params \<Rightarrow> rand_src \<Rightarrow> nat
   \<Rightarrow> (individual list \<times> nat) outcome" where
  "produce_children 0 population genetic_operators evo_params src p = Some (Inr ([], p))"
| "produce_children (Suc k) population genetic_operators evo_params src p =
     bind_outcome (produce_child population genetic_operators evo_params src p)
       (\<lambda>(child, p').
          bind_outcome (produce_children k population genetic_operators evo_params src p')
            (\<lambda>(children, p''). Some (Inr (child # children, p''))))"


section \<open>The next generation: genetics\<close>

text \<open>The quota of each key: \<open>int(round(probability * population_size))\<close>.\<close>

definition num_offspring_each_gen_op :: "evo_params \<Rightarrow> (string \<times> int) list" where
  "num_offspring_each_gen_op evo_params =
     map (\<lambda>(k, pr). (k, py_round (pr * of_int (population_size evo_params))))
       (genetic_operator_probabilities evo_params)"

text \<open>
  \<open>int(population_size / (pool.ncpus - 1))\<close>, a true division that raises
  \<open>ZeroDivisionError\<close> for a pool of one worker.
\<close>

definition aprox_num_individuals_per_job :: "evo_params \<Rightarrow> error + int" where
  "aprox_num_individuals_per_job evo_params =
     (if pool_ncpus evo_params - 1 = 0 then Inl ZeroDivisionError
      else Inr (py_int (of_int (population_size evo_params)
                          / of_int (pool_ncpus evo_params - 1))))"

text \<open>
  The \<open>while i > 0\<close> loop that cuts the quota \<open>i\<close> of one key into jobs.  With a share
  \<open>aprox \<le> 0\<close> it never ends, so it is a partial function.
\<close>

partial_function (option) job_loop ::
  "int \<Rightarrow> int \<Rightarrow> string \<Rightarrow> int list \<Rightarrow> string list
   \<Rightarrow> (int list \<times> string list) option" where
  "job_loop i aprox op jobs_n jobs_ops =
     (if i > 0 then
        (if i < aprox
         then job_loop (i - i) aprox op (jobs_n @ [i]) (jobs_ops @ [op])
         else job_loop (i - aprox) aprox op (jobs_n @ [aprox]) (jobs_ops @ [op]))
      else Some (jobs_n, jobs_ops))"

fun jobs_for_ops ::
  "(string \<times> int) list \<Rightarrow> int \<Rightarrow> int list \<Rightarrow> string list
   \<Rightarrow> (int list \<times> string list) option" where
  "jobs_for_ops [] aprox jobs_n jobs_ops = Some (jobs_n, jobs_ops)"
| "jobs_for_ops ((op, n) # rest) aprox jobs_n jobs_ops =
     (case job_loop n aprox op jobs_n jobs_ops of
        None \<Rightarrow> None
      | Some (jobs_n', jobs_ops') \<Rightarrow> jobs_for_ops rest aprox jobs_n' jobs_ops')"

text \<open>The job lists \<open>jobs_n\<close> and \<open>jobs_ops\<close> that the parallel branch builds.\<close>

definition job_partition :: "evo_params \<Rightarrow> (int list \<times> string list) outcome" where
  "job_partition evo_params =
     (case aprox_num_individuals_per_job evo_params of
        Inl e \<Rightarrow> Some (Inl e)
      | Inr aprox \<Rightarrow>
          map_option Inr (jobs_for_ops (num_offspring_each_gen_op evo_params) aprox [] []))"


text \<open>The sequential branch: for each key, \<open>for i in range(quota)\<close> appends one child.\<close>

fun append_children ::
  "nat \<Rightarrow> individual list \<Rightarrow> string \<Rightarrow> evo_params \<Rightarrow> rand_src \<Rightarrow> individual list \<Rightarrow> nat
   \<Rightarrow> (individual list \<times> nat) outcome" where
  "append_children 0 population op evo_params src offspring p = Some (Inr (offspring, p))"
| "append_children (Suc k) population op evo_params src offspring p =
     bind_outcome (produce_child population op evo_params src p)
       (\<lambda>(child, p').
          append_children k population op evo_params src (offspring @ [child]) p')"



section \<open>Notions used to state the properties\<close>

text \<open>The three operator names \<open>produce_child\<close> recognises.\<close>

definition known_operator :: "string \<Rightarrow> bool" where
  "known_operator op =
     (op = ''alternation'' \<or> op = ''uniform_mutation'' \<or> op = ''uniform_close_mutation'')"

text \<open>
  A source is fair for the parameters when, from every position on, some later draw does
  not trigger the jump of \<open>alternation\<close>.  With \<open>alternation_rate < 1\<close> a random
  source is fair with probability one; with \<open>alternation_rate = 0\<close> every source whose
  draws lie in \<open>[0, 1)\<close> is.
\<close>

definition fair :: "evo_params \<Rightarrow> rand_src \<Rightarrow> bool" where
  "fair evo_params src = (\<forall>k. \<exists>j\<ge>k. \<not> d_random (src j) < alternation_rate evo_params)"

text \<open>
  The partition in the words of the specification: for remaining quota \<open>i\<close>, carve off
  \<open>min(i, per_job_share)\<close> children for one job, decrement \<open>i\<close>, until the quota is
  exhausted.
\<close>

function spec_jobs :: "int \<Rightarrow> int \<Rightarrow> int list" where
  "spec_jobs i per_job_share =
     (if 0 < i \<and> 0 < per_job_share
      then min i per_job_share # spec_jobs (i - min i per_job_share) per_job_share
      else [])"
  by pat_completeness auto
termination
  by (relation "measure (\<lambda>(i, per_job_share). nat i)") auto

declare spec_jobs.simps [simp del]

text \<open>The sizes of the jobs that carry the key \<open>op\<close>, in order.\<close>

definition jobs_of :: "string \<Rightarrow> int list \<Rightarrow> string list \<Rightarrow> int list" where
  "jobs_of op jobs_n jobs_ops = map fst (filter (\<lambda>(n, k). k = op) (zip jobs_n jobs_ops))"

section \<open>Concrete inputs\<close>

definition g1 :: gene where
  "g1 = (VInt 1, True, 0, False)"

definition g2 :: gene where
  "g2 = (VStr ''a'', True, 1, False)"

definition g3 :: gene where
  "g3 = (VInstr ''add'', False, 0, False)"

text \<open>A source whose every draw is the same: \<open>random.random()\<close> gives one half.\<close>

definition const_src :: rand_src where
  "const_src = (\<lambda>k. \<lparr>d_random = 1 / 2, d_choice = 0, d_gauss = 0,
      d_instruction = (VInstr ''noop'', False, 0, False), d_selected = Individual []\<rparr>)"

text \<open>
  Parameters with \<open>max_points = 2\<close>, \<open>alternation_rate = 0\<close>, close mutation that
  always changes and never increments, population size 100 and the probability table
  \<open>{alternation: 0.7, uniform_mutation: 0.3}\<close>, sequential; \<open>parallel_params\<close> is the
  same with parallel genetics on a pool of four workers.
\<close>

definition demo_params :: evo_params where
  "demo_params = \<lparr>max_points = 2, alternation_rate = 0, alignment_deviation = 10,
     uniform_mutation_rate = 1 / 10, uniform_mutation_constant_tweak_rate = 1 / 2,
     uniform_mutation_float_gaussian_standard_deviation = 1,
     uniform_mutation_string_char_change_rate = 1 / 10,
     uniform_close_mutation_rate = 1, close_increment_rate = 0,
     epigenetic_markers = [''_close''],
     genetic_operator_probabilities =
       [(''alternation'', 7 / 10), (''uniform_mutation'', 3 / 10)],
     population_size = 100, parallel_genetics = False, max_workers = None,
     pool_ncpus = 4\<rparr>"

definition parallel_params :: evo_params where
  "parallel_params = demo_params\<lparr>parallel_genetics := True\<rparr>"

section \<open>Properties of the atoms\<close>

text \<open>The recursion of \<open>size_cb\<close> is the source's sum over a comprehension.\<close>

lemma size_cb_comprehension:
  "size_cb self =
     sum_list (map (\<lambda>el. case el of CodeBlock b \<Rightarrow> size_cb b + 1 | _ \<Rightarrow> 1) self)"
  by (induction self rule: size_cb.induct) simp_all

lemma size_cb_nonneg: "0 \<le> size_cb self"
  by (induction self rule: size_cb.induct) simp_all

lemma loop_below_range: "i \<le> 0 \<Longrightarrow> code_at_point_loop self i = None"
proof (induction self arbitrary: i rule: size_cb.induct)
  case 1
  show ?case by simp
next
  case (2 b els)
  have "code_at_point_loop b (i - 1) = None" using 2 by simp
  moreover have "code_at_point_loop els (i - 1 - size_cb b) = None"
    using 2 size_cb_nonneg [of b] by simp
  ultimately show ?case using 2(3) by (simp add: Let_def)
qed (simp_all add: Let_def)

lemma above_tail: "1 + size_cb els < i \<Longrightarrow> i \<noteq> 1"
  using size_cb_nonneg [of els] by simp

lemma loop_above_range: "size_cb self < i \<Longrightarrow> code_at_point_loop self i = None"
proof (induction self arbitrary: i rule: size_cb.induct)
  case 1
  show ?case by simp
next
  case (2 b els)
  have big: "size_cb b < i - 1" "size_cb els < i - 1 - size_cb b"
    using 2(3) size_cb_nonneg [of b] size_cb_nonneg [of els] by simp_all
  have "code_at_point_loop b (i - 1) = None" using 2(1) big(1) by simp
  moreover have "code_at_point_loop els (i - 1 - size_cb b) = None"
    using 2(2) big(2) by simp
  ultimately show ?case using big size_cb_nonneg [of b] by (simp add: Let_def)
qed (auto simp add: Let_def dest: above_tail)

lemma loop_in_range:
  "1 \<le> i \<Longrightarrow> i \<le> size_cb self \<Longrightarrow> \<exists>a. code_at_point_loop self i = Some a"
proof (induction self arbitrary: i rule: size_cb.induct)
  case 1
  then show ?case by simp
next
  case (2 b els)
  show ?case
  proof (cases "i = 1")
    case True
    then show ?thesis by simp
  next
    case False
    show ?thesis
    proof (cases "i - 1 \<le> size_cb b")
      case True
      then obtain a where "code_at_point_loop b (i - 1) = Some a"
        using 2(1) [of "i - 1"] 2(3) False by auto
      then show ?thesis using False by (simp add: Let_def)
    next
      case beyond: False
      then have "code_at_point_loop b (i - 1) = None"
        using loop_above_range [of b "i - 1"] by simp
      moreover obtain a where "code_at_point_loop els (i - 1 - size_cb b) = Some a"
        using 2(2) [of "i - 1 - size_cb b"] 2(4) beyond by auto
      ultimately show ?thesis using False beyond size_cb_nonneg [of b]
        by (simp add: Let_def)
    qed
  qed
qed (auto simp add: Let_def)

text \<open>
  C3, as stated, fails: on the two-leaf block, point \<open>size()\<close> is the last atom of the
  depth-first traversal, not an out-of-range index.
\<close>

theorem code_at_point_size_counterexample:
  "code_at_point lit5_add (size_cb lit5_add) = Some (InstructionMeta ''add'' 0)"
  by (simp add: lit5_add_def)

text \<open>
  C3, amended: for every CodeBlock \<open>T\<close>, \<open>code_at_point(0)\<close> returns \<open>T\<close> itself,
  \<open>code_at_point(size(T))\<close> is still in range (it returns an atom), and
  \<open>code_at_point(size(T) + 1)\<close> is out of range: it returns nothing.
\<close>

theorem code_at_point_range:
  "code_at_point self 0 = Some (CodeBlock self)
   \<and> (\<exists>a. code_at_point self (size_cb self) = Some a)
   \<and> code_at_point self (size_cb self + 1) = None"
  using loop_in_range [of "size_cb self" self]
    loop_above_range [of self "size_cb self + 1"] size_cb_nonneg [of self]
  by (cases "size_cb self = 0") auto

text \<open>
  C4, as stated, fails: the block holding the two leaves \<open>Literal(5)\<close> and
  \<open>InstructionMeta("add")\<close> does not have depth 0.
\<close>

theorem leaf_block_depth_counterexample:
  "\<not> (size_cb lit5_add = 2 \<and> depth lit5_add = 0)"
  by (simp add: lit5_add_def depth_def chain_from_iterable_def)

text \<open>
  C4, amended: the block holding exactly the two leaves \<open>Literal(5)\<close> and
  \<open>InstructionMeta("add")\<close> has \<open>size()\<close> equal to 2 and \<open>depth()\<close> equal to 1.
\<close>

theorem leaf_block_size_depth:
  "size_cb lit5_add = 2 \<and> depth lit5_add = 1"
  by (simp add: lit5_add_def depth_def chain_from_iterable_def)

section \<open>Properties of the mutations\<close>

text \<open>
  C6: for every genome \<open>G\<close> and all parameters, \<open>uniform_mutation(G)\<close> returns a genome
  of exactly the length of \<open>G\<close>: every gene is replaced by one gene, whatever the random
  draws are.
\<close>

theorem uniform_mutation_length:
  "length (fst (uniform_mutation genome evo_params src p)) = length genome"
  by (induction genome arbitrary: p) (simp_all add: split_beta)

text \<open>
  C7: for every gene whose close count is not negative (the invariant of a gene), the
  close count produced by \<open>close_mutator\<close> is not negative; and a gene with close count
  0 that is selected for change and for decrement keeps close count 0.
\<close>

theorem close_mutator_floor:
  assumes "0 \<le> plush_gene_get_closes gene"
  shows "0 \<le> plush_gene_get_closes (fst (close_mutator gene evo_params src p))
    \<and> (plush_gene_get_closes gene = 0
        \<and> d_random (src p) < uniform_close_mutation_rate evo_params
        \<and> \<not> d_random (src (p + 1)) < close_increment_rate evo_params
       \<longrightarrow> plush_gene_get_closes (fst (close_mutator gene evo_params src p)) = 0)"
  using assms
  by (simp add: close_mutator_def Let_def plush_gene_get_closes_def make_plush_gene_def)

theorem close_mutator_floor_witness:
  "0 \<le> plush_gene_get_closes (VInt 5, True, 0, False)
   \<and> d_random (const_src 0) < uniform_close_mutation_rate demo_params
   \<and> \<not> d_random (const_src (0 + 1)) < close_increment_rate demo_params
   \<and> plush_gene_get_closes
        (fst (close_mutator (VInt 5, True, 0, False) demo_params const_src 0)) = 0"
  using close_mutator_floor [of "(VInt 5, True, 0, False)" demo_params const_src 0]
  by (simp add: plush_gene_get_closes_def demo_params_def const_src_def)

text \<open>
  C10: for every literal gene whose payload is not a float, an int, a str or a bool,
  \<open>constant_mutator\<close> returns a gene marked as a literal whose payload is \<open>None\<close>, with
  the close count and the silent marker of the original; it draws nothing and does not
  fail.
\<close>

theorem constant_mutator_other_literal:
  assumes "plush_gene_is_literal token"
    and "type_of (plush_gene_get_instruction token) \<notin> {TFloat, TInt, TStr, TBool}"
  shows "constant_mutator token evo_params src p =
     (make_plush_gene VNone True (plush_gene_get_closes token) (plush_gene_is_silent token), p)"
  using assms
  by (cases "plush_gene_get_instruction token")
     (simp_all add: constant_mutator_def Let_def plush_gene_get_closes_def
        plush_gene_is_silent_def)

theorem constant_mutator_other_literal_witness:
  "plush_gene_is_literal (VObj 7, True, 3, True)
   \<and> type_of (plush_gene_get_instruction (VObj 7, True, 3, True))
        \<notin> {TFloat, TInt, TStr, TBool}
   \<and> constant_mutator (VObj 7, True, 3, True) demo_params const_src 0
        = ((VNone, True, 3, True), 0)"
  using constant_mutator_other_literal [of "(VObj 7, True, 3, True)" demo_params const_src 0]
  by (simp add: plush_gene_is_literal_def plush_gene_get_instruction_def make_plush_gene_def
       plush_gene_get_closes_def plush_gene_is_silent_def)

section \<open>Properties of alternation\<close>

text \<open>The loop never lets the output grow beyond \<open>max_points\<close>.\<close>

lemma alternation_loop_bound:
  assumes "alternation_loop parent_1 parent_2 evo_params src i loop_times use_parent_1
             resulting_genome p = Some r"
  shows "int (length resulting_genome) \<le> max_points evo_params \<longrightarrow>
         int (length (fst r)) \<le> max_points evo_params"
proof (rule alternation_loop.raw_induct
    [where P = "\<lambda>p1 p2 ep src i lt u res p r.
                  int (length res) \<le> max_points ep \<longrightarrow> int (length (fst r)) \<le> max_points ep",
     OF _ assms], goal_cases)
  case (1 loop parent_1 parent_2 evo_params src i loop_times use_parent_1 resulting_genome p r)
  note IH = 1(1) and body = 1(2)
  show ?case
  proof (cases "i < loop_times \<and> int (length resulting_genome) < max_points evo_params")
    case False
    then show ?thesis using body by auto
  next
    case guard: True
    show ?thesis
    proof (cases "d_random (src p) < alternation_rate evo_params")
      case True
      then show ?thesis using guard body IH by (auto simp add: Let_def)
    next
      case False
      then show ?thesis using guard body IH by (auto simp add: Let_def split: if_splits)
    qed
  qed
qed

text \<open>
  Termination on a fair source.  Jumps are skipped up to the next draw that does not
  jump; that round copies a gene, and at most \<open>max_points\<close> genes are copied.
\<close>

lemma alternation_loop_jumps:
  assumes "\<not> d_random (src (p + d)) < alternation_rate evo_params"
    and copy: "\<And>i loop_times use_parent_1 q.
      i < loop_times \<Longrightarrow> int (length resulting_genome) < max_points evo_params \<Longrightarrow>
      \<not> d_random (src q) < alternation_rate evo_params \<Longrightarrow>
      \<exists>r. alternation_loop parent_1 parent_2 evo_params src i loop_times use_parent_1
             resulting_genome q = Some r"
  shows "\<exists>r. alternation_loop parent_1 parent_2 evo_params src i loop_times use_parent_1
             resulting_genome p = Some r"
  using assms(1)
proof (induction d arbitrary: p i loop_times use_parent_1)
  case 0
  show ?case
  proof (cases "i < loop_times \<and> int (length resulting_genome) < max_points evo_params")
    case True
    then show ?thesis using copy [of i loop_times p use_parent_1] 0 by simp
  next
    case False
    then show ?thesis by (subst alternation_loop.simps) auto
  qed
next
  case (Suc d)
  show ?case
  proof (cases "i < loop_times \<and> int (length resulting_genome) < max_points evo_params")
    case False
    then show ?thesis by (subst alternation_loop.simps) auto
  next
    case guard: True
    show ?thesis
    proof (cases "d_random (src p) < alternation_rate evo_params")
      case False
      then show ?thesis using copy [of i loop_times p use_parent_1] guard by simp
    next
      case True
      have "\<not> d_random (src (p + 1 + d)) < alternation_rate evo_params"
        using Suc.prems by simp
      from Suc.IH [OF this] show ?thesis
        using guard True by (subst alternation_loop.simps) (simp add: Let_def)
    qed
  qed
qed

lemma alternation_loop_terminates:
  assumes "fair evo_params src"
  shows "\<exists>r. alternation_loop parent_1 parent_2 evo_params src i loop_times use_parent_1
             resulting_genome p = Some r"
proof (induction "nat (max_points evo_params - int (length resulting_genome))"
         arbitrary: resulting_genome i loop_times use_parent_1 p)
  case 0
  then have "\<not> int (length resulting_genome) < max_points evo_params" by simp
  then show ?case by (subst alternation_loop.simps) auto
next
  case (Suc b)
  obtain j where j: "p \<le> j" "\<not> d_random (src j) < alternation_rate evo_params"
    using assms unfolding fair_def by blast
  then have next_copy: "\<not> d_random (src (p + (j - p))) < alternation_rate evo_params"
    by simp
  show ?case
  proof (rule alternation_loop_jumps [where src = src and p = p and d = "j - p", OF next_copy])
    fix i loop_times :: int and use_parent_1 :: bool and q :: nat
    assume guard: "i < loop_times" "int (length resulting_genome) < max_points evo_params"
      and nojump: "\<not> d_random (src q) < alternation_rate evo_params"
    let ?g = "if use_parent_1 then resulting_genome @ [parent_1 ! nat i]
              else resulting_genome @ [parent_2 ! nat i]"
    have "b = nat (max_points evo_params - int (length ?g))"
      using Suc.hyps(2) by auto
    from Suc.hyps(1) [OF this]
    obtain r where "alternation_loop parent_1 parent_2 evo_params src (i + 1)
        (if \<not> use_parent_1 then int (length parent_2) else int (length parent_1))
        use_parent_1 ?g (q + 1) = Some r"
      by blast
    then show "\<exists>r. alternation_loop parent_1 parent_2 evo_params src i loop_times
             use_parent_1 resulting_genome q = Some r"
      using guard nojump by (subst alternation_loop.simps) (simp add: Let_def)
  qed
qed

lemma alternation_terminates:
  "fair evo_params src \<Longrightarrow> \<exists>r. alternation parent_1 parent_2 evo_params src p = Some r"
  using alternation_loop_terminates by (simp add: alternation_def Let_def)

lemma alternation_bound:
  assumes "alternation parent_1 parent_2 evo_params src p = Some (genome, p')"
    and "0 \<le> max_points evo_params"
  shows "int (length genome) \<le> max_points evo_params"
  using alternation_loop_bound
      [of parent_1 parent_2 evo_params src 0 _ _ "[]" "p + 1" "(genome, p')"] assms
  by (simp add: alternation_def Let_def)

lemma fair_demo: "fair demo_params const_src"
  by (auto simp add: fair_def demo_params_def const_src_def)

lemma demo_alternation:
  "alternation [g1, g2, g3] [g3] demo_params const_src 0 = Some ([g1, g2], 3)"
  by (simp add: alternation_def random_choice_def const_src_def demo_params_def
        alternation_loop.simps)

text \<open>
  C1: for all parents and all parameters with \<open>max_points = N\<close>, \<open>N\<close> not negative, every
  genome that \<open>alternation\<close> returns has length at most \<open>N\<close>; and on a fair source
  \<open>alternation\<close> does return a genome.
\<close>

theorem alternation_max_points:
  assumes "0 \<le> max_points evo_params"
  shows "(\<forall>genome p'. alternation parent_1 parent_2 evo_params src p = Some (genome, p')
            \<longrightarrow> int (length genome) \<le> max_points evo_params)
    \<and> (fair evo_params src \<longrightarrow>
         (\<exists>genome p'. alternation parent_1 parent_2 evo_params src p = Some (genome, p')
            \<and> int (length genome) \<le> max_points evo_params))"
proof -
  have bound: "int (length genome) \<le> max_points evo_params"
    if "alternation parent_1 parent_2 evo_params src p = Some (genome, p')" for genome p'
    using alternation_bound [OF that assms] .
  have "\<exists>genome p'. alternation parent_1 parent_2 evo_params src p = Some (genome, p')"
    if "fair evo_params src"
    using alternation_terminates [OF that, of parent_1 parent_2 p] by auto
  then show ?thesis using bound by blast
qed

theorem alternation_max_points_witness:
  "0 \<le> max_points demo_params
   \<and> fair demo_params const_src
   \<and> alternation [g1, g2, g3] [g3] demo_params const_src 0 = Some ([g1, g2], 3)
   \<and> int (length [g1, g2]) \<le> max_points demo_params"
  using alternation_max_points [of demo_params "[g1, g2, g3]" "[g3]" const_src 0]
    demo_alternation fair_demo
  by (simp add: demo_params_def)

text \<open>With rate 0 and parent 1 in use, the loop copies parent 1 up to the cap.\<close>

lemma alternation_loop_no_jump:
  assumes rate: "alternation_rate evo_params = 0"
    and draws: "\<And>k. 0 \<le> d_random (src k)"
    and "0 \<le> i"
  shows "\<exists>p'. alternation_loop parent_1 parent_2 evo_params src i (int (length parent_1)) True
            resulting_genome p
          = Some (resulting_genome
                    @ take (nat (max_points evo_params - int (length resulting_genome)))
                        (drop (nat i) parent_1), p')"
  using \<open>0 \<le> i\<close>
proof (induction "length parent_1 - nat i" arbitrary: i resulting_genome p)
  case 0
  then have "\<not> i < int (length parent_1)" by simp
  moreover have "drop (nat i) parent_1 = []" using 0 by simp
  ultimately show ?case by (subst alternation_loop.simps) simp
next
  case (Suc n)
  have inside: "i < int (length parent_1)" "nat i < length parent_1"
    using Suc.hyps(2) Suc.prems by simp_all
  have nojump: "\<not> d_random (src p) < alternation_rate evo_params"
    using rate draws [of p] by simp
  show ?case
  proof (cases "int (length resulting_genome) < max_points evo_params")
    case False
    then show ?thesis by (subst alternation_loop.simps) simp
  next
    case True
    have "n = length parent_1 - nat (i + 1)" using Suc.hyps(2) Suc.prems by simp
    from Suc.hyps(1) [OF this, of "resulting_genome @ [parent_1 ! nat i]" "p + 1"] Suc.prems
    obtain p' where step: "alternation_loop parent_1 parent_2 evo_params src (i + 1)
         (int (length parent_1)) True (resulting_genome @ [parent_1 ! nat i]) (p + 1)
       = Some ((resulting_genome @ [parent_1 ! nat i])
                 @ take (nat (max_points evo_params
                              - int (length (resulting_genome @ [parent_1 ! nat i]))))
                     (drop (nat (i + 1)) parent_1), p')"
      by auto
    have d: "drop (nat i) parent_1 = parent_1 ! nat i # drop (nat (i + 1)) parent_1"
      using inside Suc.prems by (simp add: Cons_nth_drop_Suc nat_add_distrib)
    obtain m where m: "nat (max_points evo_params - int (length resulting_genome)) = Suc m"
      using True by (cases "nat (max_points evo_params - int (length resulting_genome))") simp_all
    then have m': "nat (max_points evo_params - (1 + int (length resulting_genome))) = m"
      by simp
    show ?thesis
      using inside True nojump step
      by (subst alternation_loop.simps) (simp add: Let_def d m m')
  qed
qed

text \<open>
  C5, as stated, fails: with \<open>max_points = 2\<close> and rate 0, a parent 1 of three genes
  chosen first comes back cut to its first two genes.
\<close>

theorem alternation_rate_zero_counterexample:
  "alternation_rate demo_params = 0
   \<and> random_choice [True, False] (const_src 0) = True
   \<and> alternation [g1, g2, g3] [g3] demo_params const_src 0 = Some ([g1, g2], 3)
   \<and> [g1, g2] \<noteq> [g1, g2, g3]"
  by (simp add: alternation_def random_choice_def const_src_def demo_params_def
        alternation_loop.simps)

text \<open>
  C5, amended: for every pair of parent genomes and every alignment deviation,
  alternation with \<open>alternation_rate = 0\<close> (and draws of \<open>random.random()\<close> that are not
  negative) returns the first \<open>max_points\<close> genes of parent 1 whenever parent 1 was the
  initial random choice: no jump ever triggers, and parent 1 comes back unchanged when
  its length is at most \<open>max_points\<close>.
\<close>

theorem alternation_rate_zero:
  assumes "alternation_rate evo_params = 0"
    and "\<forall>k. 0 \<le> d_random (src k)"
    and "random_choice [True, False] (src p) = True"
  shows "(\<exists>p'. alternation parent_1 parent_2 evo_params src p
            = Some (take (nat (max_points evo_params)) parent_1, p'))
    \<and> (int (length parent_1) \<le> max_points evo_params
         \<longrightarrow> take (nat (max_points evo_params)) parent_1 = parent_1)"
  using alternation_loop_no_jump [of evo_params src 0 parent_1 parent_2 "[]" "p + 1"] assms
  by (simp add: alternation_def Let_def)

theorem alternation_rate_zero_witness:
  "alternation_rate demo_params = 0
   \<and> (\<forall>k. 0 \<le> d_random (const_src k))
   \<and> random_choice [True, False] (const_src 0) = True
   \<and> int (length [g1, g2]) \<le> max_points demo_params
   \<and> (\<exists>p'. alternation [g1, g2] [g3] demo_params const_src 0 = Some ([g1, g2], p'))"
  using alternation_rate_zero [of demo_params const_src 0 "[g1, g2]" "[g3]"]
  by (simp add: random_choice_def const_src_def demo_params_def)

section \<open>Properties of produce_child\<close>

text \<open>
  A raised error names the first operator of the list that is not recognised, and a
  child is returned only when every operator is recognised.
\<close>

lemma apply_ops_raises:
  "apply_ops ops child population evo_params src p = Some (Inl e) \<Longrightarrow>
   \<exists>op. find (\<lambda>op. \<not> known_operator op) ops = Some op \<and> e = UnknownGeneticOperator op"
proof (induction ops arbitrary: child p)
  case Nil
  then show ?case by simp
next
  case (Cons op ops)
  show ?case
  proof (cases "known_operator op")
    case False
    then show ?thesis using Cons.prems by (simp add: known_operator_def)
  next
    case True
    then have "\<exists>child' p'. apply_ops ops child' population evo_params src p' = Some (Inl e)"
      using Cons.prems
      by (auto simp add: known_operator_def Let_def split: option.splits prod.splits if_splits)
    then show ?thesis using Cons.IH True by auto
  qed
qed

lemma apply_ops_returns_child:
  "apply_ops ops child population evo_params src p = Some (Inr c) \<Longrightarrow>
   \<forall>op \<in> set ops. known_operator op"
proof (induction ops arbitrary: child p)
  case Nil
  then show ?case by simp
next
  case (Cons op ops)
  show ?case
  proof (cases "known_operator op")
    case False
    then show ?thesis using Cons.prems by (simp add: known_operator_def)
  next
    case True
    then have "\<exists>child' p'. apply_ops ops child' population evo_params src p' = Some (Inr c)"
      using Cons.prems
      by (auto simp add: known_operator_def Let_def split: option.splits prod.splits if_splits)
    then show ?thesis using Cons.IH True by auto
  qed
qed

lemma apply_ops_terminates:
  assumes "fair evo_params src"
  shows "\<exists>r. apply_ops ops child population evo_params src p = Some r"
proof (induction ops arbitrary: child p)
  case Nil
  show ?case by simp
next
  case (Cons op ops)
  obtain g q where alt: "alternation (get_genome child)
      (get_genome (selection_first population evo_params (src p))) evo_params src (p + 1)
        = Some (g, q)"
    using alternation_terminates [OF assms] by (metis surj_pair)
  show ?case
    using Cons.IH alt by (simp add: Let_def split: prod.splits)
qed

lemma find_unknown_iff:
  "(\<exists>op. find (\<lambda>op. \<not> known_operator op) ops = Some op) \<longleftrightarrow>
   (\<exists>op \<in> set ops. \<not> known_operator op)"
  by (induction ops) auto

lemma split_bogus: "py_split ''alternation & bogus'' '' & '' = [''alternation'', ''bogus'']"
  by (simp add: py_split_def)

text \<open>
  C8: on a fair source (so that every alternation before the offending name returns),
  \<open>produce_child\<close> ends, and it raises \<open>UnknownGeneticOperator\<close> if and only if the
  operator string, split on \<open>" & "\<close>, contains a name other than \<open>alternation\<close>,
  \<open>uniform_mutation\<close> and \<open>uniform_close_mutation\<close>.  The error carries the first such
  name, and it reaches the callers unchanged: the loops of \<open>genetics\<close> and of
  \<open>produce_n_children\<close> raise the same error at once, with no second attempt.
\<close>

theorem produce_child_unknown_operator:
  assumes "fair evo_params src"
  shows "\<exists>r. produce_child population genetic_operators evo_params src p = Some r
    \<and> ((\<exists>e. r = Inl e) \<longleftrightarrow>
         (\<exists>op \<in> set (py_split genetic_operators '' & ''). \<not> known_operator op))
    \<and> (\<forall>e. r = Inl e \<longrightarrow>
         (\<exists>op. find (\<lambda>op. \<not> known_operator op) (py_split genetic_operators '' & '') = Some op
               \<and> e = UnknownGeneticOperator op)
         \<and> (\<forall>k offspring. append_children (Suc k) population genetic_operators evo_params src
                offspring p = Some (Inl e))
         \<and> (\<forall>k. produce_children (Suc k) population genetic_operators evo_params src p
                = Some (Inl e)))"
proof -
  let ?ops = "py_split genetic_operators '' & ''"
  obtain r where r: "produce_child population genetic_operators evo_params src p = Some r"
    using apply_ops_terminates [OF assms] unfolding produce_child_def Let_def by blast
  have raises: "\<exists>op. find (\<lambda>op. \<not> known_operator op) ?ops = Some op
                  \<and> e = UnknownGeneticOperator op" if "r = Inl e" for e
    using r that apply_ops_raises unfolding produce_child_def Let_def by blast
  have returns: "\<forall>op \<in> set ?ops. known_operator op" if "r = Inr c" for c
    using r that apply_ops_returns_child unfolding produce_child_def Let_def by blast
  have iff: "(\<exists>e. r = Inl e) \<longleftrightarrow> (\<exists>op \<in> set ?ops. \<not> known_operator op)"
  proof (cases r)
    case (Inl e)
    then show ?thesis using raises [OF Inl] find_unknown_iff [of ?ops] by blast
  next
    case (Inr c)
    then show ?thesis using returns [OF Inr] by auto
  qed
  have propagates: "append_children (Suc k) population genetic_operators evo_params src offspring p
                = Some (Inl e)
              \<and> produce_children (Suc k) population genetic_operators evo_params src p
                = Some (Inl e)" if "r = Inl e" for e k offspring
    using r that by (simp add: bind_outcome_def)
  show ?thesis using r raises iff propagates by blast
qed


theorem produce_child_unknown_operator_witness:
  "fair demo_params const_src
   \<and> (\<exists>op \<in> set (py_split ''alternation & bogus'' '' & ''). \<not> known_operator op)
   \<and> produce_child [Individual [g1, g2]] ''alternation & bogus'' demo_params const_src 0
       = Some (Inl (UnknownGeneticOperator ''bogus''))"
  using produce_child_unknown_operator
      [OF fair_demo, of "[Individual [g1, g2]]" "''alternation & bogus''" 0] fair_demo
  by (auto simp add: split_bogus known_operator_def)

section \<open>Properties of genetics\<close>








text \<open>The job loop computes the partition of the specification.\<close>

lemma job_loop_spec:
  assumes "1 \<le> a"
  shows "job_loop n a op jobs_n jobs_ops
           = Some (jobs_n @ spec_jobs n a, jobs_ops @ replicate (length (spec_jobs n a)) op)"
proof (induction "nat n" arbitrary: n jobs_n jobs_ops rule: less_induct)
  case less
  show ?case
  proof (cases "0 < n")
    case False
    then show ?thesis
      by (subst job_loop.simps, subst (1 2) spec_jobs.simps) simp
  next
    case True
    let ?j = "min n a"
    have smaller: "nat (n - ?j) < nat n" using True assms by auto
    have unfold: "spec_jobs n a = ?j # spec_jobs (n - ?j) a"
      using True assms by (subst spec_jobs.simps) simp
    have step: "job_loop n a op jobs_n jobs_ops
                  = job_loop (n - ?j) a op (jobs_n @ [?j]) (jobs_ops @ [op])"
      using True by (subst job_loop.simps) (simp add: min_def)
    show ?thesis
      unfolding step less.hyps [OF smaller] unfold by (simp add: replicate_app_Cons_same)
  qed
qed

lemma spec_jobs_sum: "0 \<le> n \<Longrightarrow> 1 \<le> a \<Longrightarrow> sum_list (spec_jobs n a) = n"
proof (induction n a rule: spec_jobs.induct)
  case (1 i per_job_share)
  show ?case
  proof (cases "0 < i")
    case False
    then show ?thesis using 1(2) by (subst spec_jobs.simps) simp
  next
    case True
    then have "sum_list (spec_jobs (i - min i per_job_share) per_job_share)
                 = i - min i per_job_share"
      using 1 by simp
    then show ?thesis using True 1(3) by (subst spec_jobs.simps) simp
  qed
qed

lemma spec_jobs_nth:
  "m < length (spec_jobs n a) \<Longrightarrow>
   spec_jobs n a ! m = min (n - sum_list (take m (spec_jobs n a))) a"
proof (induction n a arbitrary: m rule: spec_jobs.induct)
  case (1 i per_job_share)
  show ?case
  proof (cases "0 < i \<and> 0 < per_job_share")
    case False
    then have "spec_jobs i per_job_share = []" by (subst spec_jobs.simps) simp
    then show ?thesis using 1(2) by simp
  next
    case True
    have unfold: "spec_jobs i per_job_share
        = min i per_job_share # spec_jobs (i - min i per_job_share) per_job_share"
      using True by (subst spec_jobs.simps) simp
    show ?thesis
    proof (cases m)
      case 0
      then show ?thesis unfolding unfold by simp
    next
      case (Suc m')
      then have "m' < length (spec_jobs (i - min i per_job_share) per_job_share)"
        using 1(2) unfolding unfold by simp
      from 1(1) [OF True this] show ?thesis
        unfolding unfold Suc by (simp add: algebra_simps)
    qed
  qed
qed

lemma jobs_for_ops_spec:
  assumes "1 \<le> a"
  shows "jobs_for_ops quotas a jobs_n jobs_ops
           = Some (jobs_n @ concat (map (\<lambda>(op, n). spec_jobs n a) quotas),
                   jobs_ops @ concat (map (\<lambda>(op, n). replicate (length (spec_jobs n a)) op) quotas))"
proof (induction quotas arbitrary: jobs_n jobs_ops)
  case Nil
  show ?case by simp
next
  case (Cons kn quotas)
  obtain k n where kn: "kn = (k, n)" by (cases kn)
  show ?case unfolding kn by (simp add: job_loop_spec [OF assms] Cons.IH)
qed

lemma jobs_of_append:
  "length xs = length ks \<Longrightarrow>
   jobs_of op (xs @ ys) (ks @ ls) = jobs_of op xs ks @ jobs_of op ys ls"
  by (simp add: jobs_of_def)

lemma jobs_of_replicate:
  "jobs_of op xs (replicate (length xs) k) = (if k = op then xs else [])"
  unfolding jobs_of_def by (induction xs) auto

lemma jobs_of_other:
  "op \<notin> fst ` set quotas \<Longrightarrow>
   jobs_of op (concat (map (\<lambda>(k, n). f n) quotas))
     (concat (map (\<lambda>(k, n). replicate (length (f n)) k) quotas)) = []"
proof (induction quotas)
  case Nil
  show ?case by (simp add: jobs_of_def)
next
  case (Cons kn quotas)
  obtain k n where kn: "kn = (k, n)" by (cases kn)
  show ?case using Cons unfolding kn
    by (auto simp add: jobs_of_append jobs_of_replicate)
qed

lemma jobs_of_key:
  "distinct (map fst quotas) \<Longrightarrow> (op, n) \<in> set quotas \<Longrightarrow>
   jobs_of op (concat (map (\<lambda>(k, n). f n) quotas))
     (concat (map (\<lambda>(k, n). replicate (length (f n)) k) quotas)) = f n"
proof (induction quotas)
  case Nil
  then show ?case by simp
next
  case (Cons kn quotas)
  obtain k m where kn: "kn = (k, m)" by (cases kn)
  show ?case
  proof (cases "(op, n) = (k, m)")
    case True
    then have "op \<notin> fst ` set quotas" using Cons.prems(1) kn by auto
    then show ?thesis using True unfolding kn
      by (simp add: jobs_of_append jobs_of_replicate jobs_of_other)
  next
    case False
    then have mem: "(op, n) \<in> set quotas" using Cons.prems(2) kn by auto
    then have "k \<noteq> op" using Cons.prems(1) kn by (auto simp add: image_iff)
    then show ?thesis using Cons.IH mem Cons.prems(1) unfolding kn
      by (simp add: jobs_of_append jobs_of_replicate)
  qed
qed

lemma length_concat_replicate:
  "length (concat (map (\<lambda>(op, n). replicate (length (f n)) op) quotas))
     = length (concat (map (\<lambda>(op, n). f n) quotas))"
  by (induction quotas) (simp_all add: split_beta)

lemma per_job_share_ge_1_iff:
  assumes "2 \<le> pool_ncpus evo_params"
    and "aprox_num_individuals_per_job evo_params = Inr a"
  shows "1 \<le> a \<longleftrightarrow> pool_ncpus evo_params - 1 \<le> population_size evo_params"
proof -
  let ?c = "pool_ncpus evo_params - 1" and ?N = "population_size evo_params"
  have c: "0 < ?c" using assms(1) by simp
  have a: "a = py_int (of_int ?N / of_int ?c)"
    using assms(2) c by (simp add: aprox_num_individuals_per_job_def)
  have "1 \<le> py_int (of_int ?N / of_int ?c) \<longleftrightarrow> (1::real) \<le> of_int ?N / of_int ?c"
    unfolding py_int_def by (auto simp add: le_floor_iff dest: ceiling_less_iff [THEN iffD2])
  also have "\<dots> \<longleftrightarrow> (of_int ?c :: real) \<le> of_int ?N"
    using c by (simp add: le_divide_eq)
  also have "\<dots> \<longleftrightarrow> ?c \<le> ?N"
    by (simp only: of_int_le_iff)
  finally show ?thesis using a by simp
qed

text \<open>
  C9: in parallel mode, when the share \<open>int(population_size / (ncpus - 1))\<close> is at least
  1, the keys are distinct and no quota is negative, the job loops end, and the jobs of
  each operator key are the successive \<open>min(remaining quota, share)\<close> of the
  specification (each job is the minimum of the share and the quota less the jobs
  before it); their sizes add up to the quota of the key exactly.  (For a pool of
  at least two workers the share is at least 1 exactly when
  \<open>population_size \<ge> ncpus - 1\<close>: \<open>per_job_share_ge_1_iff\<close>.)
\<close>

theorem job_partition_quota:
  assumes "aprox_num_individuals_per_job evo_params = Inr a"
    and "1 \<le> a"
    and "distinct (map fst (genetic_operator_probabilities evo_params))"
    and "\<forall>(op, n) \<in> set (num_offspring_each_gen_op evo_params). 0 \<le> n"
  shows "\<exists>jobs_n jobs_ops.
      job_partition evo_params = Some (Inr (jobs_n, jobs_ops))
    \<and> length jobs_ops = length jobs_n
    \<and> (\<forall>(op, n) \<in> set (num_offspring_each_gen_op evo_params).
          jobs_of op jobs_n jobs_ops = spec_jobs n a
        \<and> (\<forall>m < length (jobs_of op jobs_n jobs_ops).
              jobs_of op jobs_n jobs_ops ! m
                = min (n - sum_list (take m (jobs_of op jobs_n jobs_ops))) a)
        \<and> sum_list (jobs_of op jobs_n jobs_ops) = n)"
proof -
  let ?quotas = "num_offspring_each_gen_op evo_params"
  let ?jobs_n = "concat (map (\<lambda>(op, n). spec_jobs n a) ?quotas)"
  let ?jobs_ops = "concat (map (\<lambda>(op, n). replicate (length (spec_jobs n a)) op) ?quotas)"
  have part: "job_partition evo_params = Some (Inr (?jobs_n, ?jobs_ops))"
    using assms(1) jobs_for_ops_spec [OF assms(2), of ?quotas "[]" "[]"]
    by (simp add: job_partition_def)
  have keys: "distinct (map fst ?quotas)"
    using assms(3) by (simp add: num_offspring_each_gen_op_def split_beta comp_def)
  have each: "jobs_of op ?jobs_n ?jobs_ops = spec_jobs n a
              \<and> (\<forall>m < length (jobs_of op ?jobs_n ?jobs_ops).
                    jobs_of op ?jobs_n ?jobs_ops ! m
                      = min (n - sum_list (take m (jobs_of op ?jobs_n ?jobs_ops))) a)
              \<and> sum_list (jobs_of op ?jobs_n ?jobs_ops) = n"
    if "(op, n) \<in> set ?quotas" for op n
  proof -
    have "0 \<le> n" using assms(4) that by auto
    then show ?thesis
      using jobs_of_key [OF keys that, of "\<lambda>n. spec_jobs n a"] spec_jobs_sum [OF _ assms(2)]
        spec_jobs_nth [of _ n a]
      by simp
  qed
  show ?thesis
    using part each length_concat_replicate [of "\<lambda>n. spec_jobs n a" ?quotas] by auto
qed


theorem job_partition_quota_witness:
  "aprox_num_individuals_per_job parallel_params = Inr 33
   \<and> distinct (map fst (genetic_operator_probabilities parallel_params))
   \<and> num_offspring_each_gen_op parallel_params
       = [(''alternation'', 70), (''uniform_mutation'', 30)]
   \<and> (\<exists>jobs_n jobs_ops. job_partition parallel_params = Some (Inr (jobs_n, jobs_ops))
        \<and> jobs_of ''alternation'' jobs_n jobs_ops = [33, 33, 4]
        \<and> jobs_of ''uniform_mutation'' jobs_n jobs_ops = [30])"
proof -
  have share: "aprox_num_individuals_per_job parallel_params = Inr 33"
    by (simp add: aprox_num_individuals_per_job_def parallel_params_def demo_params_def
          py_int_def)
  have quotas: "num_offspring_each_gen_op parallel_params
      = [(''alternation'', 70), (''uniform_mutation'', 30)]"
    by (simp add: num_offspring_each_gen_op_def parallel_params_def demo_params_def
          py_round_def)
  have keys: "distinct (map fst (genetic_operator_probabilities parallel_params))"
    by (simp add: parallel_params_def demo_params_def)
  have nonneg: "\<forall>(op, n) \<in> set (num_offspring_each_gen_op parallel_params). 0 \<le> n"
    by (simp add: quotas)
  have s70: "spec_jobs 70 33 = [33, 33, 4]" by (simp add: spec_jobs.simps)
  have s30: "spec_jobs 30 33 = [30]" by (simp add: spec_jobs.simps)
  show ?thesis
    using job_partition_quota [OF share _ keys nonneg] share keys
    by (auto simp add: quotas s70 s30)
qed

end
